theory Spec2Isabelle
  imports Complex_Main
begin

section \<open>Library layer: calendar, timestamps, random source, rounding\<close>

text \<open>
  The script \<^verbatim>\<open>streamlit_app.py\<close> builds its hourly index with \<^verbatim>\<open>datetime\<close>,
  \<^verbatim>\<open>timedelta\<close> and \<^verbatim>\<open>pd.date_range\<close>. The calendar below is the proleptic
  Gregorian calendar of the \<^verbatim>\<open>datetime\<close> module: a date is counted by its ordinal
  (day 1 is 0001-01-01, a Monday) and a timestamp by the seconds elapsed since the
  midnight that starts ordinal 0. Floating point numbers are modelled by the real numbers
  they approximate: every arithmetic operation is exact.
\<close>

datatype error = ValueError | OutOfBoundsDatetime

type_synonym timestamp = int

definition is_leap :: "int \<Rightarrow> bool" where
  "is_leap y = (y mod 4 = 0 \<and> (y mod 100 \<noteq> 0 \<or> y mod 400 = 0))"

definition days_before_year :: "int \<Rightarrow> int" where
  "days_before_year y = (let y1 = y - 1 in y1 * 365 + y1 div 4 - y1 div 100 + y1 div 400)"

definition DAYS_IN_MONTH :: "int list" where
  "DAYS_IN_MONTH = [-1, 31, 28, 31, 30, 31, 30, 31, 31, 30, 31, 30, 31]"

definition DAYS_BEFORE_MONTH :: "int list" where
  "DAYS_BEFORE_MONTH = [-1, 0, 31, 59, 90, 120, 151, 181, 212, 243, 273, 304, 334]"

definition days_in_month :: "int \<Rightarrow> int \<Rightarrow> int" where
  "days_in_month y m = (if m = 2 \<and> is_leap y then 29 else DAYS_IN_MONTH ! nat m)"

definition days_before_month :: "int \<Rightarrow> int \<Rightarrow> int" where
  "days_before_month y m = DAYS_BEFORE_MONTH ! nat m + (if m > 2 \<and> is_leap y then 1 else 0)"

definition ymd2ord :: "int \<Rightarrow> int \<Rightarrow> int \<Rightarrow> int" where
  "ymd2ord y m d = days_before_year y + days_before_month y m + d"

text \<open>The inverse of \<open>ymd2ord\<close>, by the 400/100/4/1-year cycles of the calendar.\<close>

definition ord2ymd :: "int \<Rightarrow> int \<times> int \<times> int" where
  "ord2ymd n0 =
     (let n = n0 - 1;
          n400 = n div 146097; n = n mod 146097;
          n100 = n div 36524; n = n mod 36524;
          n4 = n div 1461; n = n mod 1461;
          n1 = n div 365; n = n mod 365;
          y = n400 * 400 + 1 + n100 * 100 + n4 * 4 + n1
      in if n1 = 4 \<or> n100 = 4 then (y - 1, 12, 31)
         else
           let leapyear = (n1 = 3 \<and> (n4 \<noteq> 24 \<or> n100 = 3));
               m = (n + 50) div 32;
               preceding = DAYS_BEFORE_MONTH ! nat m + (if m > 2 \<and> leapyear then 1 else 0)
           in if preceding > n
              then let m' = m - 1;
                       preceding' = preceding
                         - (DAYS_IN_MONTH ! nat m' + (if m' = 2 \<and> leapyear then 1 else 0))
                   in (y, m', n - preceding' + 1)
              else (y, m, n - preceding + 1))"

text \<open>
  \<^verbatim>\<open>datetime(year, month, day, hour, minute, second)\<close> raises \<^verbatim>\<open>ValueError\<close> when a
  field is out of range.
\<close>

definition datetime :: "int \<Rightarrow> int \<Rightarrow> int \<Rightarrow> int \<Rightarrow> int \<Rightarrow> int \<Rightarrow> error + timestamp" where
  "datetime y m d h mi s =
     (if \<not> (1 \<le> y \<and> y \<le> 9999) then Inl ValueError
      else if \<not> (1 \<le> m \<and> m \<le> 12) then Inl ValueError
      else if \<not> (1 \<le> d \<and> d \<le> days_in_month y m) then Inl ValueError
      else if \<not> (0 \<le> h \<and> h \<le> 23) then Inl ValueError
      else if \<not> (0 \<le> mi \<and> mi \<le> 59) then Inl ValueError
      else if \<not> (0 \<le> s \<and> s \<le> 59) then Inl ValueError
      else Inr (ymd2ord y m d * 86400 + h * 3600 + mi * 60 + s))"

definition timedelta_hours :: "int \<Rightarrow> int" where
  "timedelta_hours h = h * 3600"

definition toordinal :: "timestamp \<Rightarrow> int" where
  "toordinal ts = ts div 86400"

definition ts_year :: "timestamp \<Rightarrow> int" where
  "ts_year ts = fst (ord2ymd (toordinal ts))"

definition ts_month :: "timestamp \<Rightarrow> int" where
  "ts_month ts = fst (snd (ord2ymd (toordinal ts)))"

definition ts_day :: "timestamp \<Rightarrow> int" where
  "ts_day ts = snd (snd (ord2ymd (toordinal ts)))"

definition ts_hour :: "timestamp \<Rightarrow> int" where
  "ts_hour ts = (ts mod 86400) div 3600"

definition ts_minute :: "timestamp \<Rightarrow> int" where
  "ts_minute ts = (ts mod 3600) div 60"

definition ts_second :: "timestamp \<Rightarrow> int" where
  "ts_second ts = ts mod 60"

text \<open>\<^verbatim>\<open>ts.strftime("%A")\<close>: the English weekday name; \<^verbatim>\<open>weekday() = (ordinal + 6) % 7\<close>.\<close>

definition DAY_NAMES :: "string list" where
  "DAY_NAMES = [''Monday'', ''Tuesday'', ''Wednesday'', ''Thursday'', ''Friday'',
                ''Saturday'', ''Sunday'']"

definition weekday :: "timestamp \<Rightarrow> int" where
  "weekday ts = (toordinal ts + 6) mod 7"

definition strftime_A :: "timestamp \<Rightarrow> string" where
  "strftime_A ts = DAY_NAMES ! nat (weekday ts)"

text \<open>A \<^verbatim>\<open>datetime.time\<close> value and its comparison (field by field, as a tuple).\<close>

record time =
  hour :: int
  minute :: int
  second :: int

definition time_lt :: "time \<Rightarrow> time \<Rightarrow> bool" where
  "time_lt a b =
     (hour a < hour b \<or> (hour a = hour b \<and>
        (minute a < minute b \<or> (minute a = minute b \<and> second a < second b))))"

definition time_le :: "time \<Rightarrow> time \<Rightarrow> bool" where
  "time_le a b =
     (time_lt a b \<or> (hour a = hour b \<and> minute a = minute b \<and> second a = second b))"

definition valid_time :: "time \<Rightarrow> bool" where
  "valid_time t = (0 \<le> hour t \<and> hour t \<le> 23 \<and> 0 \<le> minute t \<and> minute t \<le> 59
                   \<and> 0 \<le> second t \<and> second t \<le> 59)"

definition ts_time :: "timestamp \<Rightarrow> time" where
  "ts_time ts = \<lparr>hour = ts_hour ts, minute = ts_minute ts, second = ts_second ts\<rparr>"

text \<open>
  \<^verbatim>\<open>pd.date_range(start, end, freq="H")\<close>: the timestamps \<open>start\<close>, \<open>start + 1h\<close>, ...
  that do not exceed \<open>end\<close>. A pandas timestamp counts nanoseconds in 64 bits, which
  covers 1677-09-21 00:12:43.145 to 2262-04-11 23:47:16.854; an endpoint outside raises
  \<^verbatim>\<open>OutOfBoundsDatetime\<close>.
\<close>

definition Timestamp_min :: timestamp where
  "Timestamp_min = ymd2ord 1677 9 21 * 86400 + 0 * 3600 + 12 * 60 + 44"

definition Timestamp_max :: timestamp where
  "Timestamp_max = ymd2ord 2262 4 11 * 86400 + 23 * 3600 + 47 * 60 + 16"

definition date_range_H :: "timestamp \<Rightarrow> timestamp \<Rightarrow> error + timestamp list" where
  "date_range_H start_date end_date =
     (if \<not> (Timestamp_min \<le> start_date \<and> start_date \<le> Timestamp_max) then Inl OutOfBoundsDatetime
      else if \<not> (Timestamp_min \<le> end_date \<and> end_date \<le> Timestamp_max) then Inl OutOfBoundsDatetime
      else Inr (map (\<lambda>k. start_date + 3600 * int k)
                    [0 ..< nat ((end_date - start_date) div 3600 + 1)]))"

text \<open>
  The random source. \<^verbatim>\<open>np.random.default_rng(s)\<close> with an integer \<open>s\<close> is a
  deterministic generator: its stream of standard normal draws is a function
  \<open>bitgen s\<close> of the seed alone. With \<open>None\<close> the generator is seeded from the operating
  system, so its stream \<open>entropy\<close> is an input of the run. The state of a generator is
  its stream and the number of draws taken so far.
\<close>

record rng =
  normals :: "nat \<Rightarrow> real"
  drawn :: nat

definition default_rng :: "(int \<Rightarrow> nat \<Rightarrow> real) \<Rightarrow> (nat \<Rightarrow> real) \<Rightarrow> int option \<Rightarrow> rng" where
  "default_rng bitgen entropy s =
     (case s of None \<Rightarrow> \<lparr>normals = entropy, drawn = 0\<rparr>
              | Some k \<Rightarrow> \<lparr>normals = bitgen k, drawn = 0\<rparr>)"

text \<open>\<^verbatim>\<open>rng.normal(loc, scale)\<close> is \<open>loc + scale * z\<close> for the next standard normal \<open>z\<close>.\<close>

definition rng_normal :: "real \<Rightarrow> real \<Rightarrow> rng \<Rightarrow> real \<times> rng" where
  "rng_normal loc scale g = (loc + scale * normals g (drawn g), g\<lparr>drawn := drawn g + 1\<rparr>)"

text \<open>\<^verbatim>\<open>round(x, ndigits)\<close>: to the nearest multiple of \<open>10^-ndigits\<close>, ties to even.\<close>

definition round_half_even :: "real \<Rightarrow> int" where
  "round_half_even x =
     (let f = \<lfloor>x\<rfloor>; d = x - of_int f
      in if d < 1 / 2 then f else if d > 1 / 2 then f + 1
         else if even f then f else f + 1)"

definition py_round :: "real \<Rightarrow> nat \<Rightarrow> real" where
  "py_round x ndigits = of_int (round_half_even (x * 10 ^ ndigits)) / 10 ^ ndigits"

section \<open>The script: configuration, hourly records, the generation loop\<close>

text \<open>The values read from the sidebar widgets (lines 28 to 45).\<close>

record config =
  year :: int
  month :: int
  operating_start :: time
  operating_end :: time
  weekdays :: "string list"
  base_load :: real
  peak_load :: real
  random_pct :: real
  seed :: int

text \<open>One dictionary appended to \<^verbatim>\<open>rows\<close> (lines 102 to 111).\<close>

record row =
  Datetime :: timestamp
  Year :: int
  Month :: int
  Day :: int
  Hour :: int
  Weekday :: string
  Operating :: bool
  Load_kW :: real

text \<open>Lines 69 to 74: the operating window test.\<close>

definition in_hours :: "time \<Rightarrow> time \<Rightarrow> time \<Rightarrow> bool" where
  "in_hours op_start op_end current_time =
     (if time_le op_start op_end
      then time_le op_start current_time \<and> time_lt current_time op_end
      else time_le op_start current_time \<or> time_lt current_time op_end)"

definition is_operating :: "config \<Rightarrow> timestamp \<Rightarrow> bool" where
  "is_operating cfg ts =
     (strftime_A ts \<in> set (weekdays cfg)
      \<and> in_hours (operating_start cfg) (operating_end cfg) (ts_time ts))"

text \<open>Lines 78 to 87: seconds since midnight, shifted by a day across midnight.\<close>

definition start_seconds :: "config \<Rightarrow> int" where
  "start_seconds cfg = hour (operating_start cfg) * 3600 + minute (operating_start cfg) * 60
                       + second (operating_start cfg)"

definition end_seconds :: "config \<Rightarrow> int" where
  "end_seconds cfg =
     (let e = hour (operating_end cfg) * 3600 + minute (operating_end cfg) * 60
              + second (operating_end cfg)
      in if e \<le> start_seconds cfg then e + 24 * 3600 else e)"

definition current_seconds :: "config \<Rightarrow> timestamp \<Rightarrow> int" where
  "current_seconds cfg ts =
     (let c = ts_hour ts * 3600 + ts_minute ts * 60 + ts_second ts
      in if c < start_seconds cfg then c + 24 * 3600 else c)"

definition midpoint :: "config \<Rightarrow> real" where
  "midpoint cfg = of_int (start_seconds cfg + end_seconds cfg) / 2"

text \<open>Lines 88 to 93: the interpolation fraction and the triangular load.\<close>

definition frac :: "config \<Rightarrow> timestamp \<Rightarrow> real" where
  "frac cfg ts =
     (if of_int (current_seconds cfg ts) \<le> midpoint cfg
      then (of_int (current_seconds cfg ts) - of_int (start_seconds cfg))
             / max (midpoint cfg - of_int (start_seconds cfg)) 1
      else (of_int (current_seconds cfg ts) - midpoint cfg)
             / max (of_int (end_seconds cfg) - midpoint cfg) 1)"

definition triangular :: "config \<Rightarrow> timestamp \<Rightarrow> real" where
  "triangular cfg ts =
     (if of_int (current_seconds cfg ts) \<le> midpoint cfg
      then base_load cfg + (peak_load cfg - base_load cfg) * frac cfg ts
      else peak_load cfg - (peak_load cfg - base_load cfg) * frac cfg ts)"

text \<open>Lines 76 to 95: the value of \<^verbatim>\<open>load\<close> before the noise is applied.\<close>

definition pre_noise_load :: "config \<Rightarrow> timestamp \<Rightarrow> real" where
  "pre_noise_load cfg ts = (if is_operating cfg ts then triangular cfg ts else base_load cfg)"

text \<open>Lines 97 to 100: the noise, which draws from the generator only if \<open>random_pct > 0\<close>.\<close>

definition apply_noise :: "config \<Rightarrow> real \<Rightarrow> rng \<Rightarrow> real \<times> rng" where
  "apply_noise cfg load g =
     (if random_pct cfg > 0
      then (let (z, g') = rng_normal 0 (random_pct cfg / 100) g;
                noise = z * load
            in (max (load + noise) 0, g'))
      else (load, g))"

text \<open>One iteration of the loop of lines 63 to 111.\<close>

definition hour_step :: "config \<Rightarrow> timestamp \<Rightarrow> rng \<Rightarrow> row \<times> rng" where
  "hour_step cfg ts g =
     (let (load, g') = apply_noise cfg (pre_noise_load cfg ts) g
      in (\<lparr>Datetime = ts, Year = ts_year ts, Month = ts_month ts, Day = ts_day ts,
            Hour = ts_hour ts, Weekday = strftime_A ts, Operating = is_operating cfg ts,
            Load_kW = py_round load 3\<rparr>, g'))"

fun loop :: "config \<Rightarrow> timestamp list \<Rightarrow> rng \<Rightarrow> row list \<Rightarrow> row list \<times> rng" where
  "loop cfg [] g rows = (rows, g)"
| "loop cfg (ts # tss) g rows =
     (let (r, g') = hour_step cfg ts g in loop cfg tss g' (rows @ [r]))"

text \<open>
  Lines 51 to 111. The result is the list \<^verbatim>\<open>rows\<close> and the final state of the generator,
  or the exception raised while the hourly index is built.
\<close>

definition run :: "(int \<Rightarrow> nat \<Rightarrow> real) \<Rightarrow> (nat \<Rightarrow> real) \<Rightarrow> config \<Rightarrow> error + (row list \<times> rng)" where
  "run bitgen entropy cfg =
     (case datetime (year cfg) (month cfg) 1 0 0 0 of
        Inl e \<Rightarrow> Inl e
      | Inr start_date \<Rightarrow>
         (case (if month cfg = 12 then datetime (year cfg + 1) 1 1 0 0 0
                else datetime (year cfg) (month cfg + 1) 1 0 0 0) of
            Inl e \<Rightarrow> Inl e
          | Inr next_month \<Rightarrow>
             (case date_range_H start_date (next_month - timedelta_hours 1) of
                Inl e \<Rightarrow> Inl e
              | Inr date_range \<Rightarrow>
                 Inr (loop cfg date_range
                        (default_rng bitgen entropy
                           (if seed cfg = 0 then None else Some (seed cfg))) []))))"

definition generate :: "(int \<Rightarrow> nat \<Rightarrow> real) \<Rightarrow> (nat \<Rightarrow> real) \<Rightarrow> config \<Rightarrow> error + row list" where
  "generate bitgen entropy cfg =
     (case run bitgen entropy cfg of Inl e \<Rightarrow> Inl e | Inr (rows, g) \<Rightarrow> Inr rows)"


section \<open>Auxiliary notions for the proofs\<close>

text \<open>
  The first instant of the configured month, the hourly index the script is expected to
  build from it, the generator after \<open>n\<close> hours of the loop, and the rows of a result.
\<close>

definition month_start :: "config \<Rightarrow> timestamp" where
  "month_start cfg = ymd2ord (year cfg) (month cfg) 1 * 86400"

definition month_hours :: "config \<Rightarrow> timestamp list" where
  "month_hours cfg =
     map (\<lambda>k. month_start cfg + 3600 * int k)
         [0 ..< nat (days_in_month (year cfg) (month cfg) * 24)]"

definition advance :: "config \<Rightarrow> nat \<Rightarrow> rng \<Rightarrow> rng" where
  "advance cfg n g = (if random_pct cfg > 0 then g\<lparr>drawn := drawn g + n\<rparr> else g)"

definition initial_rng :: "(int \<Rightarrow> nat \<Rightarrow> real) \<Rightarrow> (nat \<Rightarrow> real) \<Rightarrow> config \<Rightarrow> rng" where
  "initial_rng bitgen entropy cfg =
     default_rng bitgen entropy (if seed cfg = 0 then None else Some (seed cfg))"

fun rows_of :: "error + row list \<Rightarrow> row list" where
  "rows_of (Inl e) = []"
| "rows_of (Inr rows) = rows"

text \<open>
  Lines 51 to 57 alone: the hourly index, or the exception raised while it is built. The
  number of draws a finished run has taken from its generator.
\<close>

definition hour_index :: "config \<Rightarrow> error + timestamp list" where
  "hour_index cfg =
     (case datetime (year cfg) (month cfg) 1 0 0 0 of
        Inl e \<Rightarrow> Inl e
      | Inr start_date \<Rightarrow>
         (case (if month cfg = 12 then datetime (year cfg + 1) 1 1 0 0 0
                else datetime (year cfg) (month cfg + 1) 1 0 0 0) of
            Inl e \<Rightarrow> Inl e
          | Inr next_month \<Rightarrow> date_range_H start_date (next_month - timedelta_hours 1)))"

fun draws_of :: "error + row list \<times> rng \<Rightarrow> nat" where
  "draws_of (Inl e) = 0"
| "draws_of (Inr (rows, g)) = drawn g"

section \<open>Example configurations\<close>

text \<open>
  January 2024 starts on a Monday, so row \<open>i\<close> of a January 2024 run is hour \<open>i\<close> of
  Monday 1 January for \<open>i < 24\<close>. The streams \<open>zero_bitgen\<close> and \<open>zero_entropy\<close>
  always draw 0, \<open>low_bitgen\<close> always draws \<open>-40\<close>.
\<close>

definition zero_bitgen :: "int \<Rightarrow> nat \<Rightarrow> real" where
  "zero_bitgen s n = 0"

definition low_bitgen :: "int \<Rightarrow> nat \<Rightarrow> real" where
  "low_bitgen s n = - 40"

definition zero_entropy :: "nat \<Rightarrow> real" where
  "zero_entropy n = 0"

definition one_entropy :: "nat \<Rightarrow> real" where
  "one_entropy n = 1"

definition work_days :: "string list" where
  "work_days = [''Monday'', ''Tuesday'', ''Wednesday'', ''Thursday'', ''Friday'']"

definition cfg_office :: config where
  "cfg_office = \<lparr>year = 2024, month = 1,
     operating_start = \<lparr>hour = 8, minute = 0, second = 0\<rparr>,
     operating_end = \<lparr>hour = 18, minute = 0, second = 0\<rparr>,
     weekdays = work_days, base_load = 50, peak_load = 150, random_pct = 0, seed = 0\<rparr>"

definition cfg_night :: config where
  "cfg_night = cfg_office\<lparr>operating_start := \<lparr>hour = 22, minute = 0, second = 0\<rparr>,
     operating_end := \<lparr>hour = 6, minute = 0, second = 0\<rparr>\<rparr>"

definition cfg_equal :: config where
  "cfg_equal = cfg_office\<lparr>operating_end := \<lparr>hour = 8, minute = 0, second = 0\<rparr>\<rparr>"

definition cfg_fine :: config where
  "cfg_fine = cfg_office\<lparr>base_load := 50.0004, peak_load := 150.0004\<rparr>"


definition cfg_noisy :: config where
  "cfg_noisy = cfg_office\<lparr>random_pct := 5, seed := 42\<rparr>"


definition cfg_feb2024 :: config where
  "cfg_feb2024 = cfg_office\<lparr>month := 2\<rparr>"

definition cfg_feb2100 :: config where
  "cfg_feb2100 = cfg_office\<lparr>year := 2100, month := 2\<rparr>"

definition cfg_dec2024 :: config where
  "cfg_dec2024 = cfg_office\<lparr>month := 12\<rparr>"

section \<open>Calendar facts\<close>

lemma month_disj:
  "1 \<le> (m::int) \<Longrightarrow> m \<le> 12 \<Longrightarrow>
     m = 1 \<or> m = 2 \<or> m = 3 \<or> m = 4 \<or> m = 5 \<or> m = 6
     \<or> m = 7 \<or> m = 8 \<or> m = 9 \<or> m = 10 \<or> m = 11 \<or> m = 12"
  by arith

lemma days_in_month_bounds:
  assumes "1 \<le> m" "m \<le> 12"
  shows "28 \<le> days_in_month y m \<and> days_in_month y m \<le> 31"
  using month_disj[OF assms]
  by (elim disjE) (simp_all add: days_in_month_def DAYS_IN_MONTH_def)

lemma days_before_month_bounds:
  assumes "1 \<le> m" "m \<le> 12"
  shows "0 \<le> days_before_month y m \<and> days_before_month y m \<le> 335"
  using month_disj[OF assms]
  by (elim disjE) (simp_all add: days_before_month_def DAYS_BEFORE_MONTH_def)

lemma next_month_ord:
  assumes "1 \<le> m" "m < 12"
  shows "ymd2ord y (m + 1) 1 = ymd2ord y m 1 + days_in_month y m"
proof -
  have "m \<le> 12" using assms by simp
  from month_disj[OF assms(1) this] assms(2) show ?thesis
    by (elim disjE)
       (simp_all add: ymd2ord_def days_before_month_def days_in_month_def
          DAYS_IN_MONTH_def DAYS_BEFORE_MONTH_def)
qed

lemma div_step:
  fixes y k :: int
  assumes "1 < k"
  shows "y div k = (y - 1) div k + (if y mod k = 0 then 1 else 0)"
proof -
  define q where "q = (y - 1) div k"
  define r where "r = (y - 1) mod k"
  have y: "y = k * q + (r + 1)" unfolding q_def r_def by simp
  have r: "0 \<le> r" "r < k" using assms unfolding r_def by simp_all
  show ?thesis
  proof (cases "r + 1 < k")
    case True
    have "y div k = q" using y r True by (intro int_div_pos_eq[of y k q "r + 1"]) simp_all
    moreover have "y mod k = r + 1" using y r True by (intro int_mod_pos_eq[of y k q "r + 1"]) simp_all
    ultimately show ?thesis using r by (simp add: q_def)
  next
    case False
    then have "r + 1 = k" using r by simp
    then have y': "y = k * (q + 1) + 0" using y by (simp add: algebra_simps)
    have "y div k = q + 1" using y' assms by (intro int_div_pos_eq[of y k "q + 1" 0]) simp_all
    moreover have "y mod k = 0" using y' assms by (intro int_mod_pos_eq[of y k "q + 1" 0]) simp_all
    ultimately show ?thesis by (simp add: q_def)
  qed
qed

lemma leap_increment:
  fixes p4 p100 p400 :: bool
  assumes "p400 \<Longrightarrow> p100" "p100 \<Longrightarrow> p4"
  shows "(365::int) + (if p4 then 1 else 0) - (if p100 then 1 else 0) + (if p400 then 1 else 0)
         = (if p4 \<and> (\<not> p100 \<or> p400) then 366 else 365)"
  using assms by (cases p4; cases p100; cases p400; simp)

lemma year_sum_step:
  fixes y A B C a b c da db dc :: int
  assumes "A = a + da" "B = b + db" "C = c + dc"
  shows "y * 365 + A - B + C = ((y - 1) * 365 + a - b + c) + (365 + da - db + dc)"
  using assms by (simp add: algebra_simps)

lemma days_before_year_Suc:
  "days_before_year (y + 1) = days_before_year y + (if is_leap y then 366 else 365)"
proof -
  have a: "y div 4 = (y - 1) div 4 + (if y mod 4 = 0 then 1 else 0)" by (rule div_step) simp
  have b: "y div 100 = (y - 1) div 100 + (if y mod 100 = 0 then 1 else 0)" by (rule div_step) simp
  have c: "y div 400 = (y - 1) div 400 + (if y mod 400 = 0 then 1 else 0)" by (rule div_step) simp
  have d: "y mod 400 = 0 \<Longrightarrow> y mod 100 = 0"
    using dvd_trans[of 100 400 y] by (simp add: mod_eq_0_iff_dvd)
  have e: "y mod 100 = 0 \<Longrightarrow> y mod 4 = 0"
    using dvd_trans[of 4 100 y] by (simp add: mod_eq_0_iff_dvd)
  have g: "365 + (if y mod 4 = 0 then 1 else 0) - (if y mod 100 = 0 then 1 else 0)
              + (if y mod 400 = 0 then 1 else 0) = (if is_leap y then 366 else (365::int))"
    unfolding is_leap_def by (rule leap_increment[OF d e])
  have "days_before_year (y + 1) = y * 365 + y div 4 - y div 100 + y div 400"
    by (simp add: days_before_year_def)
  also have "\<dots> = ((y - 1) * 365 + (y - 1) div 4 - (y - 1) div 100 + (y - 1) div 400)
       + (365 + (if y mod 4 = 0 then 1 else 0) - (if y mod 100 = 0 then 1 else 0)
              + (if y mod 400 = 0 then 1 else 0))"
    by (rule year_sum_step[OF a b c])
  also have "\<dots> = days_before_year y + (if is_leap y then 366 else 365)"
    unfolding g by (simp only: days_before_year_def Let_def)
  finally show ?thesis .
qed


lemma days_before_year_mono: "y \<le> z \<Longrightarrow> days_before_year y \<le> days_before_year z"
proof (induction z rule: int_ge_induct)
  case base
  show ?case by simp
next
  case (step i)
  then show ?case by (cases "is_leap i") (simp_all add: days_before_year_Suc)
qed

lemma next_year_ord:
  "ymd2ord (y + 1) 1 1 = ymd2ord y 12 1 + days_in_month y 12"
  by (cases "is_leap y")
     (simp_all add: ymd2ord_def days_before_month_def days_in_month_def
        DAYS_IN_MONTH_def DAYS_BEFORE_MONTH_def days_before_year_Suc)

section \<open>The loop, row by row\<close>

lemma advance_0: "advance cfg 0 g = g"
  by (simp add: advance_def)

lemma advance_advance: "advance cfg n (advance cfg k g) = advance cfg (k + n) g"
  by (simp add: advance_def)

lemma apply_noise_rng: "snd (apply_noise cfg load g) = advance cfg 1 g"
  by (cases "random_pct cfg > 0") (simp_all add: apply_noise_def rng_normal_def advance_def)

lemma hour_step_rng: "snd (hour_step cfg ts g) = advance cfg 1 g"
proof -
  obtain l g' where a: "apply_noise cfg (pre_noise_load cfg ts) g = (l, g')"
    by (cases "apply_noise cfg (pre_noise_load cfg ts) g")
  then have "g' = advance cfg 1 g" using apply_noise_rng[of cfg "pre_noise_load cfg ts" g] by simp
  then show ?thesis using a by (simp add: hour_step_def)
qed

lemma loop_Cons:
  "loop cfg (ts # tss) g rows =
     loop cfg tss (advance cfg 1 g) (rows @ [fst (hour_step cfg ts g)])"
proof -
  obtain r g' where a: "hour_step cfg ts g = (r, g')" by (cases "hour_step cfg ts g")
  then have "g' = advance cfg 1 g" using hour_step_rng[of cfg ts g] by simp
  then show ?thesis using a by simp
qed

lemma loop_length: "length (fst (loop cfg tss g rows)) = length rows + length tss"
proof (induction tss arbitrary: g rows)
  case Nil
  show ?case by simp
next
  case (Cons ts tss)
  show ?case unfolding loop_Cons Cons.IH by simp
qed

lemma loop_rng: "snd (loop cfg tss g rows) = advance cfg (length tss) g"
proof (induction tss arbitrary: g rows)
  case Nil
  show ?case by (simp add: advance_0)
next
  case (Cons ts tss)
  show ?case unfolding loop_Cons Cons.IH by (simp add: advance_advance)
qed

lemma loop_nth_old:
  "i < length rows \<Longrightarrow> fst (loop cfg tss g rows) ! i = rows ! i"
proof (induction tss arbitrary: g rows)
  case Nil
  show ?case by simp
next
  case (Cons ts tss)
  have "fst (loop cfg tss (advance cfg 1 g) (rows @ [fst (hour_step cfg ts g)])) ! i
          = (rows @ [fst (hour_step cfg ts g)]) ! i"
    using Cons.prems by (intro Cons.IH) simp
  then show ?case unfolding loop_Cons using Cons.prems by (simp add: nth_append)
qed

lemma loop_nth_new:
  "i < length tss \<Longrightarrow>
     fst (loop cfg tss g rows) ! (length rows + i) = fst (hour_step cfg (tss ! i) (advance cfg i g))"
proof (induction tss arbitrary: g rows i)
  case Nil
  then show ?case by simp
next
  case (Cons ts tss)
  show ?case
  proof (cases i)
    case 0
    have "fst (loop cfg tss (advance cfg 1 g) (rows @ [fst (hour_step cfg ts g)])) ! length rows
            = (rows @ [fst (hour_step cfg ts g)]) ! length rows"
      by (intro loop_nth_old) simp
    then show ?thesis unfolding loop_Cons using 0 by (simp add: advance_0)
  next
    case (Suc j)
    then have j: "j < length tss" using Cons.prems by simp
    have "fst (loop cfg tss (advance cfg 1 g) (rows @ [fst (hour_step cfg ts g)]))
            ! (length (rows @ [fst (hour_step cfg ts g)]) + j)
          = fst (hour_step cfg (tss ! j) (advance cfg j (advance cfg 1 g)))"
      by (rule Cons.IH[OF j])
    then show ?thesis unfolding loop_Cons using Suc by (simp add: advance_advance)
  qed
qed


section \<open>The hourly index of a valid month\<close>

lemma ymd2ord_lower:
  assumes "y0 \<le> y" "1 \<le> m" "m \<le> 12"
  shows "days_before_year y0 + 1 \<le> ymd2ord y m 1"
  using days_before_year_mono[OF assms(1)] days_before_month_bounds[OF assms(2,3), of y]
  by (simp add: ymd2ord_def)

lemma ymd2ord_upper:
  assumes "y \<le> y1" "1 \<le> m" "m \<le> 12"
  shows "ymd2ord y m 1 \<le> days_before_year y1 + 336"
  using days_before_year_mono[OF assms(1)] days_before_month_bounds[OF assms(2,3), of y]
  by (simp add: ymd2ord_def)

lemma Timestamp_min_val: "Timestamp_min = 612411 * 86400 + 764"
  by (simp add: Timestamp_min_def ymd2ord_def days_before_year_def days_before_month_def
        DAYS_BEFORE_MONTH_def is_leap_def)

lemma Timestamp_max_val: "Timestamp_max = 825914 * 86400 + 85636"
  by (simp add: Timestamp_max_def ymd2ord_def days_before_year_def days_before_month_def
        DAYS_BEFORE_MONTH_def is_leap_def)

lemma datetime_first:
  assumes "1 \<le> y" "y \<le> 9999" "1 \<le> m" "m \<le> 12"
  shows "datetime y m 1 0 0 0 = Inr (ymd2ord y m 1 * 86400)"
  using assms days_in_month_bounds[OF assms(3,4), of y] by (simp add: datetime_def)

lemma next_month_first:
  assumes "1 \<le> y" "y \<le> 9998" "1 \<le> m" "m \<le> 12"
  shows "(if m = 12 then datetime (y + 1) 1 1 0 0 0 else datetime y (m + 1) 1 0 0 0)
           = Inr ((ymd2ord y m 1 + days_in_month y m) * 86400)"
proof (cases "m = 12")
  case True
  have "datetime (y + 1) 1 1 0 0 0 = Inr (ymd2ord (y + 1) 1 1 * 86400)"
    using assms by (intro datetime_first) simp_all
  then show ?thesis using True by (simp add: next_year_ord)
next
  case False
  then have m: "m < 12" using assms by simp
  have "datetime y (m + 1) 1 0 0 0 = Inr (ymd2ord y (m + 1) 1 * 86400)"
    using assms m by (intro datetime_first) simp_all
  then show ?thesis using False by (simp add: next_month_ord[OF assms(3) m])
qed

lemma date_range_month:
  assumes "1678 \<le> y" "y \<le> 2261" "1 \<le> m" "m \<le> 12"
  shows "date_range_H (ymd2ord y m 1 * 86400)
           ((ymd2ord y m 1 + days_in_month y m) * 86400 - timedelta_hours 1)
         = Inr (map (\<lambda>k. ymd2ord y m 1 * 86400 + 3600 * int k)
                    [0 ..< nat (days_in_month y m * 24)])"
proof -
  define s where "s = ymd2ord y m 1"
  define d where "d = days_in_month y m"
  have d: "28 \<le> d" "d \<le> 31" using days_in_month_bounds[OF assms(3,4), of y] by (simp_all add: d_def)
  have lo: "612513 \<le> s"
    using ymd2ord_lower[OF assms(1) assms(3,4)] by (simp add: s_def days_before_year_def)
  have hi: "s \<le> 825784"
    using ymd2ord_upper[OF assms(2) assms(3,4)] by (simp add: s_def days_before_year_def)
  have n: "((s + d) * 86400 - 3600 - s * 86400) div 3600 + 1 = d * 24"
  proof -
    have "(s + d) * 86400 - 3600 - s * 86400 = (d * 24 - 1) * 3600" by (simp add: algebra_simps)
    then show ?thesis by simp
  qed
  have b1: "Timestamp_min \<le> s * 86400" "s * 86400 \<le> Timestamp_max"
    using lo hi by (simp_all add: Timestamp_min_val Timestamp_max_val)
  have b2: "Timestamp_min \<le> (s + d) * 86400 - 3600" "(s + d) * 86400 - 3600 \<le> Timestamp_max"
    using lo hi d by (simp_all add: Timestamp_min_val Timestamp_max_val)
  show ?thesis
    unfolding s_def[symmetric] d_def[symmetric] date_range_H_def timedelta_hours_def
    using b1 b2 n by (simp add: mult.commute[of d 24])
qed

lemma run_valid:
  assumes "1678 \<le> year cfg" "year cfg \<le> 2261" "1 \<le> month cfg" "month cfg \<le> 12"
  shows "run bitgen entropy cfg
           = Inr (loop cfg (month_hours cfg) (initial_rng bitgen entropy cfg) [])"
proof -
  have a: "datetime (year cfg) (month cfg) 1 0 0 0 = Inr (month_start cfg)"
    unfolding month_start_def using assms by (intro datetime_first) simp_all
  have b: "(if month cfg = 12 then datetime (year cfg + 1) 1 1 0 0 0
            else datetime (year cfg) (month cfg + 1) 1 0 0 0)
           = Inr ((ymd2ord (year cfg) (month cfg) 1 + days_in_month (year cfg) (month cfg)) * 86400)"
    using assms by (intro next_month_first) simp_all
  have c: "date_range_H (month_start cfg)
             ((ymd2ord (year cfg) (month cfg) 1 + days_in_month (year cfg) (month cfg)) * 86400
                - timedelta_hours 1) = Inr (month_hours cfg)"
    unfolding month_start_def month_hours_def by (rule date_range_month[OF assms])
  show ?thesis
    by (simp only: run_def a b sum.case c initial_rng_def)
qed

lemma length_month_hours:
  assumes "1 \<le> month cfg" "month cfg \<le> 12"
  shows "int (length (month_hours cfg)) = days_in_month (year cfg) (month cfg) * 24"
  using days_in_month_bounds[OF assms, of "year cfg"] by (simp add: month_hours_def)

lemma generate_valid:
  assumes "1678 \<le> year cfg" "year cfg \<le> 2261" "1 \<le> month cfg" "month cfg \<le> 12"
  shows "generate bitgen entropy cfg
           = Inr (fst (loop cfg (month_hours cfg) (initial_rng bitgen entropy cfg) []))"
  unfolding generate_def run_valid[OF assms] by (simp add: case_prod_beta)


section \<open>Every generated row is one loop iteration\<close>

lemma hour_step_fields:
  "Datetime (fst (hour_step cfg ts g)) = ts"
  "Hour (fst (hour_step cfg ts g)) = ts_hour ts"
  "Weekday (fst (hour_step cfg ts g)) = strftime_A ts"
  "Operating (fst (hour_step cfg ts g)) = is_operating cfg ts"
  "Load_kW (fst (hour_step cfg ts g))
     = py_round (fst (apply_noise cfg (pre_noise_load cfg ts) g)) 3"
  by (simp_all add: hour_step_def case_prod_beta)

lemma run_Inr_loop:
  assumes "run bitgen entropy cfg = Inr p"
  shows "\<exists>tss. p = loop cfg tss (initial_rng bitgen entropy cfg) []"
  using assms unfolding run_def initial_rng_def[symmetric]
  by (auto split: sum.splits)

lemma generate_Inr_loop:
  assumes "generate bitgen entropy cfg = Inr rows"
  shows "\<exists>tss. rows = fst (loop cfg tss (initial_rng bitgen entropy cfg) [])"
proof -
  obtain p where p: "run bitgen entropy cfg = Inr p" "rows = fst p"
    using assms by (auto simp: generate_def split: sum.splits)
  then show ?thesis using run_Inr_loop[OF p(1)] by auto
qed

lemma row_sound:
  assumes "generate bitgen entropy cfg = Inr rows" "r \<in> set rows"
  shows "\<exists>g. r = fst (hour_step cfg (Datetime r) g)"
proof -
  obtain tss where rows: "rows = fst (loop cfg tss (initial_rng bitgen entropy cfg) [])"
    using generate_Inr_loop[OF assms(1)] by blast
  obtain i where i: "i < length rows" "r = rows ! i"
    using assms(2) by (auto simp: in_set_conv_nth)
  have "i < length tss" using i(1) by (simp add: rows loop_length)
  then have "rows ! i = fst (hour_step cfg (tss ! i) (advance cfg i (initial_rng bitgen entropy cfg)))"
    using loop_nth_new[of i tss cfg "initial_rng bitgen entropy cfg" "[]"] by (simp add: rows)
  then have "r = fst (hour_step cfg (tss ! i) (advance cfg i (initial_rng bitgen entropy cfg)))"
    using i(2) by simp
  moreover from this have "Datetime r = tss ! i" by (simp add: hour_step_fields)
  ultimately show ?thesis by auto
qed

lemma generated_rows:
  assumes "1678 \<le> year cfg" "year cfg \<le> 2261" "1 \<le> month cfg" "month cfg \<le> 12"
  shows "generate bitgen entropy cfg = Inr (rows_of (generate bitgen entropy cfg))"
    and "int (length (rows_of (generate bitgen entropy cfg)))
           = days_in_month (year cfg) (month cfg) * 24"
    and "int i < days_in_month (year cfg) (month cfg) * 24 \<Longrightarrow>
           rows_of (generate bitgen entropy cfg) ! i
             = fst (hour_step cfg (month_start cfg + 3600 * int i)
                      (advance cfg i (initial_rng bitgen entropy cfg)))"
proof -
  let ?g = "initial_rng bitgen entropy cfg"
  have gen: "generate bitgen entropy cfg = Inr (fst (loop cfg (month_hours cfg) ?g []))"
    by (rule generate_valid[OF assms])
  then show "generate bitgen entropy cfg = Inr (rows_of (generate bitgen entropy cfg))" by simp
  have len: "int (length (month_hours cfg)) = days_in_month (year cfg) (month cfg) * 24"
    by (rule length_month_hours[OF assms(3,4)])
  then show "int (length (rows_of (generate bitgen entropy cfg)))
           = days_in_month (year cfg) (month cfg) * 24"
    by (simp add: gen loop_length)
  assume "int i < days_in_month (year cfg) (month cfg) * 24"
  then have i: "i < length (month_hours cfg)" using len by simp
  then have "month_hours cfg ! i = month_start cfg + 3600 * int i"
    by (simp add: month_hours_def)
  then show "rows_of (generate bitgen entropy cfg) ! i
             = fst (hour_step cfg (month_start cfg + 3600 * int i) (advance cfg i ?g))"
    using loop_nth_new[OF i, of cfg ?g "[]"] by (simp add: gen)
qed


lemma jan2024:
  assumes "year cfg = 2024" "month cfg = 1"
  shows "generate bitgen entropy cfg = Inr (rows_of (generate bitgen entropy cfg))"
    and "length (rows_of (generate bitgen entropy cfg)) = 744"
    and "i < 744 \<Longrightarrow> rows_of (generate bitgen entropy cfg) ! i \<in> set (rows_of (generate bitgen entropy cfg))"
    and "i < 744 \<Longrightarrow> rows_of (generate bitgen entropy cfg) ! i
           = fst (hour_step cfg (63839750400 + 3600 * int i)
                    (advance cfg i (initial_rng bitgen entropy cfg)))"
proof -
  have v: "1678 \<le> year cfg" "year cfg \<le> 2261" "1 \<le> month cfg" "month cfg \<le> 12"
    using assms by simp_all
  have d: "days_in_month (year cfg) (month cfg) * 24 = 744"
    using assms by (simp add: days_in_month_def DAYS_IN_MONTH_def)
  have s: "month_start cfg = 63839750400"
    using assms by (simp add: month_start_def ymd2ord_def days_before_year_def
        days_before_month_def DAYS_BEFORE_MONTH_def)
  show "generate bitgen entropy cfg = Inr (rows_of (generate bitgen entropy cfg))"
    by (rule generated_rows(1)[OF v])
  show len: "length (rows_of (generate bitgen entropy cfg)) = 744"
    using generated_rows(2)[OF v, of bitgen entropy] unfolding d by simp
  show "i < 744 \<Longrightarrow> rows_of (generate bitgen entropy cfg) ! i \<in> set (rows_of (generate bitgen entropy cfg))"
    using len by simp
  show "i < 744 \<Longrightarrow> rows_of (generate bitgen entropy cfg) ! i
           = fst (hour_step cfg (63839750400 + 3600 * int i)
                    (advance cfg i (initial_rng bitgen entropy cfg)))"
    using generated_rows(3)[OF v, of i bitgen entropy] unfolding d s by simp
qed

section \<open>Facts about single rows and the example month\<close>

lemma not_time_le: "(\<not> time_le a b) = time_lt b a"
  by (auto simp: time_le_def time_lt_def)

lemma time_lt_irrefl: "\<not> time_lt a a"
  by (simp add: time_lt_def)

lemma round_half_even_scaled: "\<exists>k::int. py_round x 3 * 1000 = of_int k"
  by (simp add: py_round_def)

lemma jan2024_Datetime:
  assumes "year cfg = 2024" "month cfg = 1" "i < 744"
  shows "Datetime (rows_of (generate bitgen entropy cfg) ! i) = 63839750400 + 3600 * int i"
  unfolding jan2024(4)[OF assms] by (rule hour_step_fields(1))

lemma row_operating:
  assumes "generate bitgen entropy cfg = Inr rows" and "r \<in> set rows"
  shows "Weekday r = strftime_A (Datetime r)"
    and "Operating r = is_operating cfg (Datetime r)"
proof -
  obtain g where r: "r = fst (hour_step cfg (Datetime r) g)"
    using row_sound[OF assms] by blast
  show "Weekday r = strftime_A (Datetime r)"
    using hour_step_fields(3)[of cfg "Datetime r" g] r by simp
  show "Operating r = is_operating cfg (Datetime r)"
    using hour_step_fields(4)[of cfg "Datetime r" g] r by simp
qed

lemma on_hour:
  assumes "0 \<le> k" "k < 24"
  shows "toordinal (d * 86400 + 3600 * k) = d"
    and "ts_hour (d * 86400 + 3600 * k) = k"
    and "ts_minute (d * 86400 + 3600 * k) = 0"
    and "ts_second (d * 86400 + 3600 * k) = 0"
proof -
  let ?ts = "d * 86400 + 3600 * k"
  have r: "0 \<le> 3600 * k" "3600 * k < 86400" using assms by simp_all
  have e: "?ts = 86400 * d + 3600 * k" by simp
  show "toordinal ?ts = d"
    unfolding toordinal_def by (rule int_div_pos_eq[OF e r])
  have "?ts mod 86400 = 3600 * k" by (rule int_mod_pos_eq[OF e r])
  then show "ts_hour ?ts = k" by (simp add: ts_hour_def)
  have "?ts = 3600 * (24 * d + k)" by simp
  then have "?ts mod 3600 = 0" by (metis mod_mult_self1_is_0)
  then show "ts_minute ?ts = 0" by (simp add: ts_minute_def)
  have "?ts = 60 * (1440 * d + 60 * k)" by simp
  then have "?ts mod 60 = 0" by (metis mod_mult_self1_is_0)
  then show "ts_second ?ts = 0" by (simp add: ts_second_def)
qed

lemma monday_hours:
  assumes "i < 24"
  shows "strftime_A (63839750400 + 3600 * int i) = ''Monday''"
    and "ts_time (63839750400 + 3600 * int i) = \<lparr>hour = int i, minute = 0, second = 0\<rparr>"
proof -
  have k: "0 \<le> int i" "int i < 24" using assms by simp_all
  have e: "63839750400 + 3600 * int i = 738886 * 86400 + 3600 * int i" by simp
  show "strftime_A (63839750400 + 3600 * int i) = ''Monday''"
    unfolding e strftime_A_def weekday_def on_hour(1)[OF k] by (simp add: DAY_NAMES_def)
  show "ts_time (63839750400 + 3600 * int i) = \<lparr>hour = int i, minute = 0, second = 0\<rparr>"
    unfolding e ts_time_def on_hour[OF k] by simp
qed

lemma jan2024_monday:
  assumes "year cfg = 2024" "month cfg = 1" "i < 24"
  shows "ts_time (Datetime (rows_of (generate bitgen entropy cfg) ! i))
           = \<lparr>hour = int i, minute = 0, second = 0\<rparr>"
    and "strftime_A (Datetime (rows_of (generate bitgen entropy cfg) ! i)) = ''Monday''"
    and "rows_of (generate bitgen entropy cfg) ! i \<in> set (rows_of (generate bitgen entropy cfg))"
proof -
  have i: "i < 744" using assms(3) by simp
  note d = jan2024_Datetime[OF assms(1,2) i, of bitgen entropy]
  show "ts_time (Datetime (rows_of (generate bitgen entropy cfg) ! i))
           = \<lparr>hour = int i, minute = 0, second = 0\<rparr>"
    unfolding d by (rule monday_hours(2)[OF assms(3)])
  show "strftime_A (Datetime (rows_of (generate bitgen entropy cfg) ! i)) = ''Monday''"
    unfolding d by (rule monday_hours(1)[OF assms(3)])
  show "rows_of (generate bitgen entropy cfg) ! i \<in> set (rows_of (generate bitgen entropy cfg))"
    by (rule jan2024(3)[OF assms(1,2) i])
qed

lemma cfg_office_fields:
  "year cfg_office = 2024" "month cfg_office = 1"
  "operating_start cfg_office = \<lparr>hour = 8, minute = 0, second = 0\<rparr>"
  "operating_end cfg_office = \<lparr>hour = 18, minute = 0, second = 0\<rparr>"
  "weekdays cfg_office = work_days"
  "base_load cfg_office = 50" "peak_load cfg_office = 150"
  "random_pct cfg_office = 0" "seed cfg_office = 0"
  by (simp_all add: cfg_office_def)

lemma cfg_night_fields:
  "year cfg_night = 2024" "month cfg_night = 1"
  "operating_start cfg_night = \<lparr>hour = 22, minute = 0, second = 0\<rparr>"
  "operating_end cfg_night = \<lparr>hour = 6, minute = 0, second = 0\<rparr>"
  "weekdays cfg_night = work_days"
  "base_load cfg_night = 50" "peak_load cfg_night = 150"
  "random_pct cfg_night = 0" "seed cfg_night = 0"
  by (simp_all add: cfg_night_def cfg_office_def)



lemma seconds_range:
  assumes "valid_time a"
  shows "0 \<le> hour a * 3600 + minute a * 60 + second a"
    and "hour a * 3600 + minute a * 60 + second a < 86400"
  using assms by (simp_all add: valid_time_def)













lemma cfg_noisy_fields:
  "year cfg_noisy = 2024" "month cfg_noisy = 1"
  "operating_start cfg_noisy = \<lparr>hour = 8, minute = 0, second = 0\<rparr>"
  "operating_end cfg_noisy = \<lparr>hour = 18, minute = 0, second = 0\<rparr>"
  "weekdays cfg_noisy = work_days"
  "base_load cfg_noisy = 50" "peak_load cfg_noisy = 150"
  "random_pct cfg_noisy = 5" "seed cfg_noisy = 42"
  by (simp_all add: cfg_noisy_def cfg_office_def)

lemma cfg_equal_fields:
  "year cfg_equal = 2024" "month cfg_equal = 1"
  "operating_start cfg_equal = \<lparr>hour = 8, minute = 0, second = 0\<rparr>"
  "operating_end cfg_equal = \<lparr>hour = 8, minute = 0, second = 0\<rparr>"
  "weekdays cfg_equal = work_days"
  "base_load cfg_equal = 50" "peak_load cfg_equal = 150"
  "random_pct cfg_equal = 0" "seed cfg_equal = 0"
  by (simp_all add: cfg_equal_def cfg_office_def)

lemma jan2024_Operating:
  assumes "year cfg = 2024" "month cfg = 1" "i < 744"
  shows "Operating (rows_of (generate bitgen entropy cfg) ! i)
           = is_operating cfg (63839750400 + 3600 * int i)"
  unfolding jan2024(4)[OF assms] by (rule hour_step_fields(4))

lemma jan2024_Weekday:
  assumes "year cfg = 2024" "month cfg = 1" "i < 744"
  shows "Weekday (rows_of (generate bitgen entropy cfg) ! i)
           = strftime_A (63839750400 + 3600 * int i)"
  unfolding jan2024(4)[OF assms] by (rule hour_step_fields(3))

lemma round_half_even_of_int: "round_half_even (of_int k) = k"
  by (simp add: round_half_even_def)

lemma py_round_fixed:
  assumes "x * 1000 = of_int k"
  shows "py_round x 3 = x"
proof -
  have "py_round x 3 = of_int (round_half_even (of_int k)) / 1000"
    using assms by (simp add: py_round_def)
  also have "\<dots> = of_int k / 1000" by (simp only: round_half_even_of_int)
  also have "\<dots> = x" using assms by simp
  finally show ?thesis .
qed

lemma apply_noise_off:
  assumes "\<not> random_pct cfg > 0"
  shows "apply_noise cfg load g = (load, g)"
  using assms by (simp add: apply_noise_def)

lemma row_load_noise_off:
  assumes "generate bitgen entropy cfg = Inr rows" and "r \<in> set rows"
    and "\<not> random_pct cfg > 0"
  shows "Load_kW r = py_round (pre_noise_load cfg (Datetime r)) 3"
proof -
  obtain g where r: "r = fst (hour_step cfg (Datetime r) g)"
    using row_sound[OF assms(1,2)] by blast
  show ?thesis
    using hour_step_fields(5)[of cfg "Datetime r" g] r apply_noise_off[OF assms(3)] by simp
qed

lemma start_before_end:
  assumes "valid_time (operating_start cfg)" "valid_time (operating_end cfg)"
  shows "start_seconds cfg < end_seconds cfg"
proof -
  define e0 where "e0 = hour (operating_end cfg) * 3600 + minute (operating_end cfg) * 60
                        + second (operating_end cfg)"
  have rs: "start_seconds cfg < 86400"
    using seconds_range(2)[OF assms(1)] by (simp add: start_seconds_def)
  have re: "0 \<le> e0" using seconds_range(1)[OF assms(2)] by (simp add: e0_def)
  have E: "end_seconds cfg = (if e0 \<le> start_seconds cfg then e0 + 86400 else e0)"
    by (simp add: end_seconds_def Let_def e0_def)
  show ?thesis unfolding E using rs re by (cases "e0 \<le> start_seconds cfg") simp_all
qed

lemma triangular_at_start:
  assumes "valid_time (operating_start cfg)" "valid_time (operating_end cfg)"
    and "current_seconds cfg ts = start_seconds cfg"
  shows "triangular cfg ts = base_load cfg"
proof -
  have "real_of_int (start_seconds cfg) < real_of_int (end_seconds cfg)"
    using start_before_end[OF assms(1,2)] by simp
  then have "real_of_int (start_seconds cfg) \<le> midpoint cfg"
    by (simp add: midpoint_def)
  then show ?thesis by (simp add: triangular_def frac_def assms(3))
qed

lemma triangular_at_midpoint:
  assumes "valid_time (operating_start cfg)" "valid_time (operating_end cfg)"
    and "real_of_int (current_seconds cfg ts) = midpoint cfg"
  shows "triangular cfg ts = peak_load cfg"
proof -
  define s where "s = start_seconds cfg"
  define e where "e = end_seconds cfg"
  define c where "c = current_seconds cfg ts"
  have se: "s < e" using start_before_end[OF assms(1,2)] by (simp add: s_def e_def)
  have "real_of_int c * 2 = real_of_int (s + e)"
    using assms(3) by (simp add: midpoint_def c_def s_def e_def)
  then have "real_of_int (c * 2) = real_of_int (s + e)" by simp
  then have "c * 2 = s + e" by (simp only: of_int_eq_iff)
  then have "1 \<le> c - s" using se by simp
  then have "1 \<le> real_of_int c - real_of_int s" by linarith
  then have m: "1 \<le> midpoint cfg - real_of_int (start_seconds cfg)"
    using assms(3) by (simp add: c_def s_def)
  have "frac cfg ts = (midpoint cfg - real_of_int (start_seconds cfg))
                        / max (midpoint cfg - real_of_int (start_seconds cfg)) 1"
    by (simp add: frac_def assms(3))
  also have "\<dots> = 1" using m by (simp add: max_def)
  finally have "frac cfg ts = 1" .
  then show ?thesis by (simp add: triangular_def assms(3))
qed

lemma cfg_fine_fields:
  "year cfg_fine = 2024" "month cfg_fine = 1"
  "operating_start cfg_fine = \<lparr>hour = 8, minute = 0, second = 0\<rparr>"
  "operating_end cfg_fine = \<lparr>hour = 18, minute = 0, second = 0\<rparr>"
  "weekdays cfg_fine = work_days"
  "base_load cfg_fine = 50.0004" "peak_load cfg_fine = 150.0004"
  "random_pct cfg_fine = 0" "seed cfg_fine = 0"
  by (simp_all add: cfg_fine_def cfg_office_def)

lemma py_round_fine: "py_round 50.0004 3 = 50" "py_round 150.0004 3 = 150"
  by (simp_all add: py_round_def round_half_even_def Let_def)

lemma office_hours_operating:
  assumes "operating_start cfg = \<lparr>hour = 8, minute = 0, second = 0\<rparr>"
    and "operating_end cfg = \<lparr>hour = 18, minute = 0, second = 0\<rparr>"
    and "weekdays cfg = work_days" and "i < 24"
  shows "is_operating cfg (63839750400 + 3600 * int i) = (8 \<le> i \<and> i < 18)"
  using monday_hours[OF assms(4)] assms(1,2,3)
  by (auto simp: is_operating_def in_hours_def work_days_def time_le_def time_lt_def)

lemma jan2024_clock:
  assumes "year cfg = 2024" "month cfg = 1" "i < 24"
  shows "ts_hour (Datetime (rows_of (generate bitgen entropy cfg) ! i)) = int i"
    and "ts_minute (Datetime (rows_of (generate bitgen entropy cfg) ! i)) = 0"
    and "ts_second (Datetime (rows_of (generate bitgen entropy cfg) ! i)) = 0"
proof -
  let ?ts = "Datetime (rows_of (generate bitgen entropy cfg) ! i)"
  have t: "ts_time ?ts = \<lparr>hour = int i, minute = 0, second = 0\<rparr>"
    by (rule jan2024_monday(1)[OF assms])
  have "hour (ts_time ?ts) = int i" "minute (ts_time ?ts) = 0" "second (ts_time ?ts) = 0"
    unfolding t by simp_all
  then show "ts_hour ?ts = int i" "ts_minute ?ts = 0" "ts_second ?ts = 0"
    by (simp_all add: ts_time_def)
qed

lemma office_row_operating:
  assumes "year cfg = 2024" "month cfg = 1"
    and "operating_start cfg = \<lparr>hour = 8, minute = 0, second = 0\<rparr>"
    and "operating_end cfg = \<lparr>hour = 18, minute = 0, second = 0\<rparr>"
    and "weekdays cfg = work_days" and "i < 24"
  shows "Operating (rows_of (generate bitgen entropy cfg) ! i) = (8 \<le> i \<and> i < 18)"
proof -
  have i: "i < 744" using assms(6) by simp
  show ?thesis
    unfolding jan2024_Operating[OF assms(1,2) i]
    by (rule office_hours_operating[OF assms(3,4,5,6)])
qed

lemma month_hours_nth:
  assumes "i < length (month_hours cfg)"
  shows "month_hours cfg ! i = month_start cfg + 3600 * int i"
  using assms by (simp add: month_hours_def)

lemma generated_Datetime:
  assumes "1678 \<le> year cfg" "year cfg \<le> 2261" "1 \<le> month cfg" "month cfg \<le> 12"
    and "int i < days_in_month (year cfg) (month cfg) * 24"
  shows "Datetime (rows_of (generate bitgen entropy cfg) ! i) = month_start cfg + 3600 * int i"
  unfolding generated_rows(3)[OF assms] by (rule hour_step_fields(1))

lemma datetime_last_hour:
  assumes "1 \<le> y" "y \<le> 9999" "1 \<le> m" "m \<le> 12"
  shows "datetime y m (days_in_month y m) 23 0 0
           = Inr (ymd2ord y m 1 * 86400 + 3600 * (days_in_month y m * 24 - 1))"
proof -
  have d: "28 \<le> days_in_month y m" using days_in_month_bounds[OF assms(3,4), of y] by simp
  have "ymd2ord y m (days_in_month y m) = ymd2ord y m 1 + (days_in_month y m - 1)"
    by (simp add: ymd2ord_def)
  then show ?thesis using assms d by (simp add: datetime_def algebra_simps)
qed

lemma coverage_rows:
  assumes "1678 \<le> year cfg" "year cfg \<le> 2261" "1 \<le> month cfg" "month cfg \<le> 12"
    and R_def: "R = rows_of (generate bitgen entropy cfg)"
  shows "int (length R) = days_in_month (year cfg) (month cfg) * 24"
    and "\<forall>i. Suc i < length R \<longrightarrow> Datetime (R ! Suc i) = Datetime (R ! i) + timedelta_hours 1"
    and "datetime (year cfg) (month cfg) 1 0 0 0 = Inr (Datetime (hd R))"
    and "datetime (year cfg) (month cfg) (days_in_month (year cfg) (month cfg)) 23 0 0
           = Inr (Datetime (last R))"
    and "sorted_wrt (<) (map Datetime R)"
proof -
  note v = assms(1-4)
  show len: "int (length R) = days_in_month (year cfg) (month cfg) * 24"
    unfolding R_def by (rule generated_rows(2)[OF v])
  have D: "\<And>i. i < length R \<Longrightarrow> Datetime (R ! i) = month_start cfg + 3600 * int i"
  proof -
    fix i assume "i < length R"
    then have "int i < days_in_month (year cfg) (month cfg) * 24" using len by simp
    then show "Datetime (R ! i) = month_start cfg + 3600 * int i"
      unfolding R_def by (rule generated_Datetime[OF v])
  qed
  have pos: "0 < length R"
    using len days_in_month_bounds[OF v(3,4), of "year cfg"] by (cases "length R") simp_all
  then have ne: "R \<noteq> []" by simp
  have y: "1 \<le> year cfg" "year cfg \<le> 9999" using v by simp_all
  show "\<forall>i. Suc i < length R \<longrightarrow> Datetime (R ! Suc i) = Datetime (R ! i) + timedelta_hours 1"
  proof (intro allI impI)
    fix i assume s: "Suc i < length R"
    then have "i < length R" by simp
    then show "Datetime (R ! Suc i) = Datetime (R ! i) + timedelta_hours 1"
      using D[OF s] D[of i] by (simp add: timedelta_hours_def)
  qed
  have "Datetime (hd R) = month_start cfg"
    using D[OF pos] by (simp add: hd_conv_nth[OF ne])
  then show "datetime (year cfg) (month cfg) 1 0 0 0 = Inr (Datetime (hd R))"
    using datetime_first[OF y v(3,4)] by (simp add: month_start_def)
  have l: "length R - 1 < length R" using pos by simp
  obtain n where n: "length R = Suc n" using pos by (cases "length R") simp_all
  have "int (length R - 1) = int (length R) - 1" unfolding n by simp
  then have "int (length R - 1) = days_in_month (year cfg) (month cfg) * 24 - 1"
    using len by simp
  then have "Datetime (last R)
               = month_start cfg + 3600 * (days_in_month (year cfg) (month cfg) * 24 - 1)"
    using D[OF l] by (simp add: last_conv_nth[OF ne])
  then show "datetime (year cfg) (month cfg) (days_in_month (year cfg) (month cfg)) 23 0 0
           = Inr (Datetime (last R))"
    using datetime_last_hour[OF y v(3,4)] by (simp add: month_start_def)
  show "sorted_wrt (<) (map Datetime R)"
    unfolding sorted_wrt_iff_nth_less
  proof (intro allI impI)
    fix i j assume ij: "i < j" and j: "j < length (map Datetime R)"
    then have "i < length R" "j < length R" by simp_all
    then show "map Datetime R ! i < map Datetime R ! j"
      using D[of i] D[of j] ij by simp
  qed
qed

lemma generated_Hour:
  assumes "1678 \<le> year cfg" "year cfg \<le> 2261" "1 \<le> month cfg" "month cfg \<le> 12"
    and "int i < days_in_month (year cfg) (month cfg) * 24"
  shows "Hour (rows_of (generate bitgen entropy cfg) ! i) = int (i mod 24)"
proof -
  have k: "0 \<le> int (i mod 24)" "int (i mod 24) < 24" by simp_all
  have "int i = 24 * int (i div 24) + int (i mod 24)"
    by (metis of_nat_add of_nat_mult of_nat_numeral mult_div_mod_eq)
  then have "month_start cfg + 3600 * int i
      = (ymd2ord (year cfg) (month cfg) 1 + int (i div 24)) * 86400 + 3600 * int (i mod 24)"
    by (simp add: month_start_def algebra_simps)
  then have "ts_hour (month_start cfg + 3600 * int i) = int (i mod 24)"
    using on_hour(2)[OF k, of "ymd2ord (year cfg) (month cfg) 1 + int (i div 24)"] by simp
  then show ?thesis
    unfolding generated_rows(3)[OF assms] hour_step_fields(2) .
qed

lemma run_hour_index:
  "run bitgen entropy cfg =
     (case hour_index cfg of
        Inl e \<Rightarrow> Inl e
      | Inr date_range \<Rightarrow> Inr (loop cfg date_range (initial_rng bitgen entropy cfg) []))"
  unfolding run_def hour_index_def initial_rng_def by (simp split: sum.splits)

lemma generate_hour_index:
  "generate bitgen entropy cfg =
     (case hour_index cfg of
        Inl e \<Rightarrow> Inl e
      | Inr date_range \<Rightarrow> Inr (fst (loop cfg date_range (initial_rng bitgen entropy cfg) [])))"
  unfolding generate_def run_hour_index by (simp split: sum.splits add: case_prod_beta)

lemma initial_rng_seeded:
  assumes "seed cfg \<noteq> 0"
  shows "initial_rng bitgen entropy1 cfg = initial_rng bitgen entropy2 cfg"
  using assms by (simp add: initial_rng_def default_rng_def)

lemma initial_rng_fresh: "drawn (initial_rng bitgen entropy cfg) = 0"
  by (cases "seed cfg = 0") (simp_all add: initial_rng_def default_rng_def)

lemma hour_step_noise_off:
  assumes "\<not> random_pct cfg > 0"
  shows "fst (hour_step cfg ts g) = fst (hour_step cfg ts g')"
  by (simp add: hour_step_def apply_noise_off[OF assms])

lemma advance_noise_off:
  assumes "\<not> random_pct cfg > 0"
  shows "advance cfg n g = g"
  using assms by (simp add: advance_def)

lemma loop_noise_off:
  assumes "\<not> random_pct cfg > 0"
  shows "fst (loop cfg tss g rows) = fst (loop cfg tss g' rows)"
proof (induction tss arbitrary: rows)
  case Nil
  show ?case by simp
next
  case (Cons ts tss)
  show ?case
    unfolding loop_Cons advance_noise_off[OF assms] hour_step_noise_off[OF assms, of ts g g']
    by (rule Cons.IH)
qed

lemma drawn_advance:
  "drawn (advance cfg n g) = (if random_pct cfg > 0 then drawn g + n else drawn g)"
  by (simp add: advance_def)

lemma normals_advance: "normals (advance cfg n g) = normals g"
  by (simp add: advance_def)

lemma run_rows_and_rng:
  assumes "run bitgen entropy cfg = Inr (rows, g)"
  shows "drawn g = (if random_pct cfg > 0 then length rows else 0)"
    and "normals g = normals (initial_rng bitgen entropy cfg)"
    and "\<forall>i. i < length rows \<longrightarrow>
           rows ! i = fst (hour_step cfg (Datetime (rows ! i))
                             (advance cfg i (initial_rng bitgen entropy cfg)))"
proof -
  let ?g0 = "initial_rng bitgen entropy cfg"
  obtain tss where l: "(rows, g) = loop cfg tss ?g0 []"
    using run_Inr_loop[OF assms] by blast
  have rows: "rows = fst (loop cfg tss ?g0 [])" and g: "g = snd (loop cfg tss ?g0 [])"
    using arg_cong[OF l, of fst] arg_cong[OF l, of snd] by simp_all
  have len: "length rows = length tss" unfolding rows by (simp add: loop_length)
  have g': "g = advance cfg (length rows) ?g0" unfolding g len by (rule loop_rng)
  show "drawn g = (if random_pct cfg > 0 then length rows else 0)"
    unfolding g' drawn_advance initial_rng_fresh by simp
  show "normals g = normals ?g0" unfolding g' by (rule normals_advance)
  show "\<forall>i. i < length rows \<longrightarrow>
           rows ! i = fst (hour_step cfg (Datetime (rows ! i)) (advance cfg i ?g0))"
  proof (intro allI impI)
    fix i assume "i < length rows"
    then have i: "i < length tss" using len by simp
    have r: "rows ! i = fst (hour_step cfg (tss ! i) (advance cfg i ?g0))"
      using loop_nth_new[OF i, of cfg ?g0 "[]"] by (simp add: rows)
    then have "Datetime (rows ! i) = tss ! i" by (simp add: hour_step_fields(1))
    then show "rows ! i = fst (hour_step cfg (Datetime (rows ! i)) (advance cfg i ?g0))"
      using r by simp
  qed
qed

lemma jan2024_run:
  assumes "year cfg = 2024" "month cfg = 1"
  shows "run bitgen entropy cfg
           = Inr (fst (loop cfg (month_hours cfg) (initial_rng bitgen entropy cfg) []),
                  snd (loop cfg (month_hours cfg) (initial_rng bitgen entropy cfg) []))"
    and "length (fst (loop cfg (month_hours cfg) (initial_rng bitgen entropy cfg) [])) = 744"
proof -
  have v: "1678 \<le> year cfg" "year cfg \<le> 2261" "1 \<le> month cfg" "month cfg \<le> 12"
    using assms by simp_all
  show "run bitgen entropy cfg
           = Inr (fst (loop cfg (month_hours cfg) (initial_rng bitgen entropy cfg) []),
                  snd (loop cfg (month_hours cfg) (initial_rng bitgen entropy cfg) []))"
    unfolding run_valid[OF v] by simp
  have "generate bitgen entropy cfg
          = Inr (fst (loop cfg (month_hours cfg) (initial_rng bitgen entropy cfg) []))"
    by (rule generate_valid[OF v])
  then show "length (fst (loop cfg (month_hours cfg) (initial_rng bitgen entropy cfg) [])) = 744"
    using jan2024(2)[OF assms, of bitgen entropy] by simp
qed

lemma draws_of_Inr: "draws_of (Inr p) = drawn (snd p)"
  by (cases p) simp




section \<open>The claims\<close>

text \<open>
  Claim C2. For every record, \<open>Operating\<close> is true exactly when the weekday name of its
  timestamp is among the operating days and its time of day is in the operating window:
  \<open>start \<le> t < end\<close> when \<open>start \<le> end\<close>, and \<open>t \<ge> start\<close> or \<open>t < end\<close> when
  \<open>start > end\<close>. With start 08:00 and end 18:00 the hour at 18:00 is not operating and
  the hour at 08:00 is operating on every operating day.
\<close>

theorem operating_flag:
  assumes "generate bitgen entropy cfg = Inr rows" and "r \<in> set rows"
  shows "Weekday r = strftime_A (Datetime r)
       \<and> Operating r =
           (Weekday r \<in> set (weekdays cfg) \<and>
            (if time_le (operating_start cfg) (operating_end cfg)
             then time_le (operating_start cfg) (ts_time (Datetime r))
                  \<and> time_lt (ts_time (Datetime r)) (operating_end cfg)
             else time_le (operating_start cfg) (ts_time (Datetime r))
                  \<or> time_lt (ts_time (Datetime r)) (operating_end cfg)))
       \<and> (operating_start cfg = \<lparr>hour = 8, minute = 0, second = 0\<rparr> \<longrightarrow>
          operating_end cfg = \<lparr>hour = 18, minute = 0, second = 0\<rparr> \<longrightarrow>
           (ts_time (Datetime r) = \<lparr>hour = 18, minute = 0, second = 0\<rparr> \<longrightarrow> \<not> Operating r)
           \<and> (ts_time (Datetime r) = \<lparr>hour = 8, minute = 0, second = 0\<rparr>
                \<longrightarrow> Operating r = (Weekday r \<in> set (weekdays cfg))))"
proof -
  note w = row_operating(1)[OF assms] and o = row_operating(2)[OF assms]
  have f: "Operating r =
           (Weekday r \<in> set (weekdays cfg) \<and>
            (if time_le (operating_start cfg) (operating_end cfg)
             then time_le (operating_start cfg) (ts_time (Datetime r))
                  \<and> time_lt (ts_time (Datetime r)) (operating_end cfg)
             else time_le (operating_start cfg) (ts_time (Datetime r))
                  \<or> time_lt (ts_time (Datetime r)) (operating_end cfg)))"
    unfolding o w by (simp add: is_operating_def in_hours_def)
  have e: "operating_start cfg = \<lparr>hour = 8, minute = 0, second = 0\<rparr> \<longrightarrow>
          operating_end cfg = \<lparr>hour = 18, minute = 0, second = 0\<rparr> \<longrightarrow>
           (ts_time (Datetime r) = \<lparr>hour = 18, minute = 0, second = 0\<rparr> \<longrightarrow> \<not> Operating r)
           \<and> (ts_time (Datetime r) = \<lparr>hour = 8, minute = 0, second = 0\<rparr>
                \<longrightarrow> Operating r = (Weekday r \<in> set (weekdays cfg)))"
    unfolding f by (simp add: time_le_def time_lt_def)
  show ?thesis using w f e by blast
qed

theorem operating_flag_witness:
  "Operating (rows_of (generate zero_bitgen zero_entropy cfg_office) ! 8)
   \<and> \<not> Operating (rows_of (generate zero_bitgen zero_entropy cfg_office) ! 18)
   \<and> Operating (rows_of (generate zero_bitgen zero_entropy cfg_night) ! 23)
   \<and> \<not> Operating (rows_of (generate zero_bitgen zero_entropy cfg_night) ! 12)"
proof -
  note c = cfg_office_fields(1,2) and n = cfg_night_fields(1,2)
  note a = operating_flag[OF jan2024(1)[OF c] jan2024_monday(3)[OF c], of _ zero_bitgen zero_entropy]
  note b = operating_flag[OF jan2024(1)[OF n] jan2024_monday(3)[OF n], of _ zero_bitgen zero_entropy]
  have "Operating (rows_of (generate zero_bitgen zero_entropy cfg_office) ! 8)"
    using a[of 8] jan2024_monday(1,2)[OF c, of 8 zero_bitgen zero_entropy]
    by (simp add: cfg_office_fields work_days_def time_le_def time_lt_def)
  moreover have "\<not> Operating (rows_of (generate zero_bitgen zero_entropy cfg_office) ! 18)"
    using a[of 18] jan2024_monday(1,2)[OF c, of 18 zero_bitgen zero_entropy]
    by (simp add: cfg_office_fields work_days_def time_le_def time_lt_def)
  moreover have "Operating (rows_of (generate zero_bitgen zero_entropy cfg_night) ! 23)"
    using b[of 23] jan2024_monday(1,2)[OF n, of 23 zero_bitgen zero_entropy]
    by (simp add: cfg_night_fields work_days_def time_le_def time_lt_def)
  moreover have "\<not> Operating (rows_of (generate zero_bitgen zero_entropy cfg_night) ! 12)"
    using b[of 12] jan2024_monday(1,2)[OF n, of 12 zero_bitgen zero_entropy]
    by (simp add: cfg_night_fields work_days_def time_le_def time_lt_def)
  ultimately show ?thesis by blast
qed




theorem overnight_window_counterexample:
  "time_le (operating_end cfg_equal) (operating_start cfg_equal)
   \<and> Weekday (rows_of (generate zero_bitgen zero_entropy cfg_equal) ! 8) \<in> set (weekdays cfg_equal)
   \<and> ts_time (Datetime (rows_of (generate zero_bitgen zero_entropy cfg_equal) ! 8))
       = operating_start cfg_equal
   \<and> \<not> Operating (rows_of (generate zero_bitgen zero_entropy cfg_equal) ! 8)"
proof -
  note c = cfg_equal_fields(1,2)
  have i: "(8::nat) < 744" "(8::nat) < 24" by simp_all
  have w: "Weekday (rows_of (generate zero_bitgen zero_entropy cfg_equal) ! 8) = ''Monday''"
    unfolding jan2024_Weekday[OF c i(1)] using monday_hours(1)[OF i(2)] by simp
  have t: "ts_time (Datetime (rows_of (generate zero_bitgen zero_entropy cfg_equal) ! 8))
             = \<lparr>hour = 8, minute = 0, second = 0\<rparr>"
    using jan2024_monday(1)[OF c i(2), of zero_bitgen zero_entropy] by simp
  have o: "\<not> is_operating cfg_equal (63839750400 + 3600 * int 8)"
    using monday_hours(2)[OF i(2)]
    by (simp add: is_operating_def in_hours_def cfg_equal_fields time_le_def time_lt_def)
  show ?thesis
    unfolding jan2024_Operating[OF c i(1)] w t using o
    by (simp add: cfg_equal_fields work_days_def time_le_def time_lt_def)
qed

text \<open>
  Claim C7, as the script has it. A schedule whose end is strictly before its start is an
  overnight window wrapping past midnight: on operating days the hours at or after the
  start and the hours before the end are operating. A schedule whose end equals its start
  selects the non-wrapping test \<open>start \<le> t < end\<close>, which no time satisfies: no hour is
  operating. The claim as stated (equal start and end is a wrapped, full-day window) fails
  at \<open>cfg_equal\<close>, see \<open>overnight_window_counterexample\<close>.
\<close>

theorem overnight_window:
  assumes "generate bitgen entropy cfg = Inr rows" and "r \<in> set rows"
  shows "(time_lt (operating_end cfg) (operating_start cfg) \<longrightarrow>
            Operating r = (Weekday r \<in> set (weekdays cfg)
              \<and> (time_le (operating_start cfg) (ts_time (Datetime r))
                  \<or> time_lt (ts_time (Datetime r)) (operating_end cfg))))
       \<and> (operating_end cfg = operating_start cfg \<longrightarrow> \<not> Operating r)"
proof -
  note w = row_operating(1)[OF assms] and o = row_operating(2)[OF assms]
  have a: "time_lt (operating_end cfg) (operating_start cfg) \<longrightarrow>
            Operating r = (Weekday r \<in> set (weekdays cfg)
              \<and> (time_le (operating_start cfg) (ts_time (Datetime r))
                  \<or> time_lt (ts_time (Datetime r)) (operating_end cfg)))"
  proof
    assume "time_lt (operating_end cfg) (operating_start cfg)"
    then have "\<not> time_le (operating_start cfg) (operating_end cfg)"
      using not_time_le[of "operating_start cfg" "operating_end cfg"] by simp
    then show "Operating r = (Weekday r \<in> set (weekdays cfg)
              \<and> (time_le (operating_start cfg) (ts_time (Datetime r))
                  \<or> time_lt (ts_time (Datetime r)) (operating_end cfg)))"
      unfolding o w by (simp add: is_operating_def in_hours_def)
  qed
  have b: "operating_end cfg = operating_start cfg \<longrightarrow> \<not> Operating r"
  proof
    assume e: "operating_end cfg = operating_start cfg"
    have "time_le (operating_start cfg) (operating_start cfg)" by (simp add: time_le_def)
    moreover have "\<not> (time_le (operating_start cfg) (ts_time (Datetime r))
                      \<and> time_lt (ts_time (Datetime r)) (operating_start cfg))"
      using not_time_le[of "operating_start cfg" "ts_time (Datetime r)"] by blast
    ultimately have "\<not> in_hours (operating_start cfg) (operating_start cfg) (ts_time (Datetime r))"
      unfolding in_hours_def by simp
    then show "\<not> Operating r" unfolding o is_operating_def e by simp
  qed
  show ?thesis using a b by blast
qed

theorem overnight_window_witness:
  "Operating (rows_of (generate zero_bitgen zero_entropy cfg_night) ! 22)
   \<and> Operating (rows_of (generate zero_bitgen zero_entropy cfg_night) ! 5)
   \<and> \<not> Operating (rows_of (generate zero_bitgen zero_entropy cfg_night) ! 6)
   \<and> \<not> Operating (rows_of (generate zero_bitgen zero_entropy cfg_equal) ! 9)"
proof -
  note n = cfg_night_fields(1,2) and c = cfg_equal_fields(1,2)
  note a = overnight_window[OF jan2024(1)[OF n] jan2024_monday(3)[OF n], of _ zero_bitgen zero_entropy]
  note b = overnight_window[OF jan2024(1)[OF c] jan2024_monday(3)[OF c], of _ zero_bitgen zero_entropy]
  have w: "\<And>i. i < 24 \<Longrightarrow>
      Weekday (rows_of (generate zero_bitgen zero_entropy cfg_night) ! i) = ''Monday''"
    using jan2024_Weekday[OF n, of _ zero_bitgen zero_entropy] monday_hours(1) by simp
  have "Operating (rows_of (generate zero_bitgen zero_entropy cfg_night) ! 22)"
    using a[of 22] w[of 22] jan2024_monday(1)[OF n, of 22 zero_bitgen zero_entropy]
    by (simp add: cfg_night_fields work_days_def time_le_def time_lt_def)
  moreover have "Operating (rows_of (generate zero_bitgen zero_entropy cfg_night) ! 5)"
    using a[of 5] w[of 5] jan2024_monday(1)[OF n, of 5 zero_bitgen zero_entropy]
    by (simp add: cfg_night_fields work_days_def time_le_def time_lt_def)
  moreover have "\<not> Operating (rows_of (generate zero_bitgen zero_entropy cfg_night) ! 6)"
    using a[of 6] w[of 6] jan2024_monday(1)[OF n, of 6 zero_bitgen zero_entropy]
    by (simp add: cfg_night_fields work_days_def time_le_def time_lt_def)
  moreover have "\<not> Operating (rows_of (generate zero_bitgen zero_entropy cfg_equal) ! 9)"
    using b[of 9] by (simp add: cfg_equal_fields)
  ultimately show ?thesis by blast
qed

text \<open>
  Claim C5, as the script has it. With \<open>random_pct = 0\<close>, every record that is not operating
  has \<open>Load_kW\<close> equal to \<open>base_load\<close> rounded to 3 decimal places, which is \<open>base_load\<close>
  itself when \<open>base_load\<close> has at most 3 decimal digits. The claim as stated (exactly
  \<open>base_load\<close>) fails for a base load of 50.0004, see \<open>baseline_when_idle_counterexample\<close>.
\<close>

theorem baseline_when_idle:
  assumes "generate bitgen entropy cfg = Inr rows" and "r \<in> set rows"
    and "random_pct cfg = 0" and "\<not> Operating r"
  shows "Load_kW r = py_round (base_load cfg) 3
       \<and> ((\<exists>k::int. base_load cfg * 1000 = of_int k) \<longrightarrow> Load_kW r = base_load cfg)"
proof -
  have n: "\<not> random_pct cfg > 0" using assms(3) by simp
  have "\<not> is_operating cfg (Datetime r)"
    using row_operating(2)[OF assms(1,2)] assms(4) by simp
  then have "pre_noise_load cfg (Datetime r) = base_load cfg" by (simp add: pre_noise_load_def)
  then have l: "Load_kW r = py_round (base_load cfg) 3"
    using row_load_noise_off[OF assms(1,2) n] by simp
  then show ?thesis using py_round_fixed[of "base_load cfg"] by auto
qed

theorem baseline_when_idle_counterexample:
  "random_pct cfg_fine = 0
   \<and> \<not> Operating (rows_of (generate zero_bitgen zero_entropy cfg_fine) ! 0)
   \<and> Load_kW (rows_of (generate zero_bitgen zero_entropy cfg_fine) ! 0) \<noteq> base_load cfg_fine"
proof -
  note c = cfg_fine_fields(1,2)
  let ?r = "rows_of (generate zero_bitgen zero_entropy cfg_fine) ! 0"
  have i: "(0::nat) < 744" "(0::nat) < 24" by simp_all
  have d: "Datetime ?r = 63839750400 + 3600 * int 0" by (rule jan2024_Datetime[OF c i(1)])
  have o: "\<not> is_operating cfg_fine (63839750400 + 3600 * int 0)"
    using office_hours_operating[OF cfg_fine_fields(3,4,5) i(2)] by simp
  have n: "\<not> random_pct cfg_fine > 0" by (simp add: cfg_fine_fields)
  have "Load_kW ?r = py_round (pre_noise_load cfg_fine (Datetime ?r)) 3"
    by (rule row_load_noise_off[OF jan2024(1)[OF c] jan2024(3)[OF c i(1)] n])
  also have "\<dots> = py_round (base_load cfg_fine) 3"
    unfolding d using o by (simp add: pre_noise_load_def)
  also have "\<dots> = 50" by (simp only: cfg_fine_fields py_round_fine)
  finally have l: "Load_kW ?r = 50" .
  have "\<not> Operating ?r" unfolding jan2024_Operating[OF c i(1)] by (rule o)
  then show ?thesis using l by (simp add: cfg_fine_fields)
qed

theorem baseline_when_idle_witness:
  "Load_kW (rows_of (generate zero_bitgen zero_entropy cfg_office) ! 20) = py_round 50 3
   \<and> Load_kW (rows_of (generate zero_bitgen zero_entropy cfg_office) ! 20) = 50"
proof -
  note c = cfg_office_fields(1,2)
  let ?r = "rows_of (generate zero_bitgen zero_entropy cfg_office) ! 20"
  have i: "(20::nat) < 744" "(20::nat) < 24" by simp_all
  have o: "\<not> Operating ?r"
    unfolding jan2024_Operating[OF c i(1)]
    using office_hours_operating[OF cfg_office_fields(3,4,5) i(2)] by simp
  have k: "\<exists>k::int. base_load cfg_office * 1000 = of_int k"
    by (rule exI[of _ 50000]) (simp add: cfg_office_fields)
  show ?thesis
    using baseline_when_idle[OF jan2024(1)[OF c] jan2024(3)[OF c i(1)] cfg_office_fields(8) o] k
    by (simp add: cfg_office_fields)
qed

text \<open>
  Claim C3. For every year in 2000 to 2100 and month in 1 to 12 the run succeeds and yields
  exactly \<open>days_in_month year month * 24\<close> records (29 days for a leap-year February, the
  end bound of December taken from 1 January of the next year), each timestamp one hour after
  the previous one, from day 1 hour 0 to the last day's hour 23, strictly increasing and so
  without gaps or duplicates.
\<close>

theorem month_coverage:
  assumes "2000 \<le> year cfg" and "year cfg \<le> 2100" and "1 \<le> month cfg" and "month cfg \<le> 12"
  shows "\<exists>rows. generate bitgen entropy cfg = Inr rows
       \<and> int (length rows) = days_in_month (year cfg) (month cfg) * 24
       \<and> (\<forall>i. Suc i < length rows \<longrightarrow>
             Datetime (rows ! Suc i) = Datetime (rows ! i) + timedelta_hours 1)
       \<and> (\<forall>i. i < length rows \<longrightarrow> Hour (rows ! i) = int (i mod 24))
       \<and> datetime (year cfg) (month cfg) 1 0 0 0 = Inr (Datetime (hd rows))
       \<and> datetime (year cfg) (month cfg) (days_in_month (year cfg) (month cfg)) 23 0 0
             = Inr (Datetime (last rows))
       \<and> sorted_wrt (<) (map Datetime rows)
       \<and> distinct (map Datetime rows)"
proof -
  let ?R = "rows_of (generate bitgen entropy cfg)"
  have v: "1678 \<le> year cfg" "year cfg \<le> 2261" "1 \<le> month cfg" "month cfg \<le> 12"
    using assms by simp_all
  note c = coverage_rows[OF v refl, of bitgen entropy]
  have h: "\<forall>i. i < length ?R \<longrightarrow> Hour (?R ! i) = int (i mod 24)"
  proof (intro allI impI)
    fix i assume "i < length ?R"
    then have "int i < days_in_month (year cfg) (month cfg) * 24" using c(1) by simp
    then show "Hour (?R ! i) = int (i mod 24)" by (rule generated_Hour[OF v])
  qed
  have d: "distinct (map Datetime ?R)"
    using c(5) strict_sorted_iff[of "map Datetime ?R"] by simp
  have "generate bitgen entropy cfg = Inr ?R" by (rule generated_rows(1)[OF v])
  then show ?thesis using c h d by blast
qed

theorem month_coverage_witness:
  "length (rows_of (generate zero_bitgen zero_entropy cfg_feb2024)) = 696
   \<and> length (rows_of (generate zero_bitgen zero_entropy cfg_feb2100)) = 672
   \<and> length (rows_of (generate zero_bitgen zero_entropy cfg_dec2024)) = 744"
proof -
  have a: "length (rows_of (generate zero_bitgen zero_entropy cfg_feb2024)) = 696"
    using month_coverage[of cfg_feb2024 zero_bitgen zero_entropy]
    by (auto simp: cfg_feb2024_def cfg_office_def days_in_month_def is_leap_def)
  have b: "length (rows_of (generate zero_bitgen zero_entropy cfg_feb2100)) = 672"
    using month_coverage[of cfg_feb2100 zero_bitgen zero_entropy]
    by (auto simp: cfg_feb2100_def cfg_office_def days_in_month_def is_leap_def DAYS_IN_MONTH_def)
  have c: "length (rows_of (generate zero_bitgen zero_entropy cfg_dec2024)) = 744"
    using month_coverage[of cfg_dec2024 zero_bitgen zero_entropy]
    by (auto simp: cfg_dec2024_def cfg_office_def days_in_month_def DAYS_IN_MONTH_def)
  show ?thesis using a b c by blast
qed

text \<open>
  Claim C4. With a non-zero seed the result of a run does not depend on the entropy of the
  operating system: two runs with the same inputs and seed give the same rows. The generator
  is created once, before the loop, with no draw taken; row \<open>i\<close> is computed with the
  generator advanced by \<open>i\<close> draws when \<open>random_pct > 0\<close>, one draw per hour in the order
  of the hours, and with the generator untouched otherwise, so that a run with
  \<open>random_pct = 0\<close> takes no draw and its rows depend on the configuration alone.
\<close>

theorem seeded_runs_reproducible:
  "(seed cfg \<noteq> 0 \<longrightarrow>
      run bitgen entropy1 cfg = run bitgen entropy2 cfg
      \<and> generate bitgen entropy1 cfg = generate bitgen entropy2 cfg)
   \<and> (random_pct cfg = 0 \<longrightarrow> generate bitgen1 entropy1 cfg = generate bitgen2 entropy2 cfg)
   \<and> (\<forall>rows g. run bitgen entropy cfg = Inr (rows, g) \<longrightarrow>
         drawn (initial_rng bitgen entropy cfg) = 0
         \<and> normals g = normals (initial_rng bitgen entropy cfg)
         \<and> drawn g = (if random_pct cfg > 0 then length rows else 0)
         \<and> (\<forall>i. i < length rows \<longrightarrow>
               rows ! i = fst (hour_step cfg (Datetime (rows ! i))
                                 (advance cfg i (initial_rng bitgen entropy cfg)))))"
proof (intro conjI impI allI)
  assume s: "seed cfg \<noteq> 0"
  show "run bitgen entropy1 cfg = run bitgen entropy2 cfg"
    unfolding run_hour_index initial_rng_seeded[OF s, of bitgen entropy1 entropy2] by (rule refl)
  show "generate bitgen entropy1 cfg = generate bitgen entropy2 cfg"
    unfolding generate_hour_index initial_rng_seeded[OF s, of bitgen entropy1 entropy2]
    by (rule refl)
next
  assume "random_pct cfg = 0"
  then have n: "\<not> random_pct cfg > 0" by simp
  show "generate bitgen1 entropy1 cfg = generate bitgen2 entropy2 cfg"
    unfolding generate_hour_index
    using loop_noise_off[OF n, of _ "initial_rng bitgen1 entropy1 cfg" "[]"
            "initial_rng bitgen2 entropy2 cfg"]
    by (simp split: sum.splits)
next
  fix rows g assume r: "run bitgen entropy cfg = Inr (rows, g)"
  show "drawn (initial_rng bitgen entropy cfg) = 0" by (rule initial_rng_fresh)
  show "normals g = normals (initial_rng bitgen entropy cfg)" by (rule run_rows_and_rng(2)[OF r])
  show "drawn g = (if random_pct cfg > 0 then length rows else 0)"
    by (rule run_rows_and_rng(1)[OF r])
  fix i assume "i < length rows"
  then show "rows ! i = fst (hour_step cfg (Datetime (rows ! i))
                                 (advance cfg i (initial_rng bitgen entropy cfg)))"
    using run_rows_and_rng(3)[OF r] by blast
qed

theorem seeded_runs_reproducible_witness:
  "generate low_bitgen zero_entropy cfg_noisy = generate low_bitgen one_entropy cfg_noisy
   \<and> generate zero_bitgen zero_entropy cfg_office = generate low_bitgen one_entropy cfg_office
   \<and> draws_of (run low_bitgen zero_entropy cfg_noisy) = 744
   \<and> draws_of (run low_bitgen one_entropy cfg_office) = 0"
proof -
  have a: "generate low_bitgen zero_entropy cfg_noisy = generate low_bitgen one_entropy cfg_noisy"
    using seeded_runs_reproducible[where cfg=cfg_noisy and bitgen=low_bitgen
            and ?entropy1.0=zero_entropy and ?entropy2.0=one_entropy]
    by (simp add: cfg_noisy_fields)
  have b: "generate zero_bitgen zero_entropy cfg_office = generate low_bitgen one_entropy cfg_office"
    using seeded_runs_reproducible[where cfg=cfg_office and ?bitgen1.0=zero_bitgen
            and ?entropy1.0=zero_entropy and ?bitgen2.0=low_bitgen and ?entropy2.0=one_entropy]
    by (simp add: cfg_office_fields)
  note n = jan2024_run[OF cfg_noisy_fields(1,2), of low_bitgen zero_entropy]
  have "drawn (snd (loop cfg_noisy (month_hours cfg_noisy)
                      (initial_rng low_bitgen zero_entropy cfg_noisy) []))
          = (if random_pct cfg_noisy > 0
             then length (fst (loop cfg_noisy (month_hours cfg_noisy)
                                 (initial_rng low_bitgen zero_entropy cfg_noisy) []))
             else 0)"
    using seeded_runs_reproducible[where cfg=cfg_noisy and bitgen=low_bitgen
            and entropy=zero_entropy and ?entropy1.0=zero_entropy and ?entropy2.0=zero_entropy
            and ?bitgen1.0=low_bitgen and ?bitgen2.0=low_bitgen] n(1)
    by blast
  then have "drawn (snd (loop cfg_noisy (month_hours cfg_noisy)
                      (initial_rng low_bitgen zero_entropy cfg_noisy) [])) = 744"
    by (simp add: cfg_noisy_fields n(2))
  then have c: "draws_of (run low_bitgen zero_entropy cfg_noisy) = 744"
    unfolding n(1) draws_of_Inr by simp
  note m = jan2024_run[OF cfg_office_fields(1,2), of low_bitgen one_entropy]
  have "drawn (snd (loop cfg_office (month_hours cfg_office)
                      (initial_rng low_bitgen one_entropy cfg_office) []))
          = (if random_pct cfg_office > 0
             then length (fst (loop cfg_office (month_hours cfg_office)
                                 (initial_rng low_bitgen one_entropy cfg_office) []))
             else 0)"
    using seeded_runs_reproducible[where cfg=cfg_office and bitgen=low_bitgen
            and entropy=one_entropy and ?entropy1.0=zero_entropy and ?entropy2.0=zero_entropy
            and ?bitgen1.0=low_bitgen and ?bitgen2.0=low_bitgen] m(1)
    by blast
  then have "drawn (snd (loop cfg_office (month_hours cfg_office)
                      (initial_rng low_bitgen one_entropy cfg_office) [])) = 0"
    by (simp add: cfg_office_fields)
  then have d: "draws_of (run low_bitgen one_entropy cfg_office) = 0"
    unfolding m(1) draws_of_Inr by simp
  show ?thesis using a b c d by blast
qed




end
